theory Spec2Isabelle
  imports Main "HOL-Library.Word"
begin

section \<open>Identifiers and span identifiers (span.go)\<close>

text \<open>
  The identifier type \<open>ID\<close> is declared in a file that is not part of the sources at hand.
  Modelled from the spec: an opaque fixed-width value whose zero value means "absent".
  The store only compares identifiers and tests them against zero.
\<close>

type_synonym ID = "64 word"

record SpanID =
  Trace :: ID
  Span :: ID
  Parent :: ID

datatype error = ErrBadSpanID | ErrTraceNotFound | Panic string

definition IsRoot :: "SpanID \<Rightarrow> bool" where
  "IsRoot sid = (Parent sid = 0)"

text \<open>
  \<open>generateID\<close> is not part of the sources; the identifiers it returns are passed in.
\<close>

definition NewRootSpanID :: "ID \<Rightarrow> ID \<Rightarrow> SpanID" where
  "NewRootSpanID g1 g2 = \<lparr>Trace = g1, Span = g2, Parent = 0\<rparr>"

definition NewSpanID :: "SpanID \<Rightarrow> ID \<Rightarrow> SpanID" where
  "NewSpanID parent g = \<lparr>Trace = Trace parent, Span = g, Parent = Span parent\<rparr>"

section \<open>Spans, annotations and trace nodes\<close>

record Annotation =
  Key :: string
  Value :: "8 word list"

type_synonym Annotations = "Annotation list"

record Span =
  ID :: SpanID
  Annotations :: Annotations

text \<open>
  A \<open>*Trace\<close> is an address; the struct embeds \<open>Span\<close> and adds the child list \<open>Sub\<close>
  of addresses.
\<close>

type_synonym ptr = nat

record Trace = Span +
  Sub :: "ptr list"

section \<open>The in-memory store (second part of span.go)\<close>

text \<open>
  \<open>trace\<close> and \<open>span\<close> are the two Go maps. \<open>heap\<close> holds the nodes the pointers refer
  to and \<open>nxt\<close> is the next address the allocator hands out. The mutex and the logging
  flag do not influence the stored data and are left out.
\<close>

record memoryStore =
  trace :: "ID \<rightharpoonup> ptr"
  span :: "ID \<rightharpoonup> (ID \<rightharpoonup> ptr)"
  heap :: "ptr \<Rightarrow> Trace"
  nxt :: ptr

definition zeroTrace :: Trace where
  "zeroTrace = \<lparr>ID = \<lparr>Trace = 0, Span = 0, Parent = 0\<rparr>, Annotations = [], Sub = []\<rparr>"

definition NewMemoryStore :: memoryStore where
  "NewMemoryStore = \<lparr>trace = Map.empty, span = Map.empty, heap = (\<lambda>_. zeroTrace), nxt = 0\<rparr>"

text \<open>Reading \<open>m[a][b]\<close>: a missing outer entry is a nil map, whose every key is absent.\<close>

definition lookup2 :: "(ID \<rightharpoonup> (ID \<rightharpoonup> ptr)) \<Rightarrow> ID \<Rightarrow> ID \<Rightarrow> ptr option" where
  "lookup2 sp t k = (case sp t of None \<Rightarrow> None | Some m \<Rightarrow> m k)"

text \<open>\<open>p.Sub = append(p.Sub, c)\<close>\<close>

definition appendSub :: "ptr \<Rightarrow> ptr \<Rightarrow> (ptr \<Rightarrow> Trace) \<Rightarrow> (ptr \<Rightarrow> Trace)" where
  "appendSub p c h = h(p := (h p)\<lparr>Sub := Sub (h p) @ [c]\<rparr>)"

text \<open>\<open>p.Sub = cs\<close>\<close>

definition setSub :: "ptr \<Rightarrow> ptr list \<Rightarrow> (ptr \<Rightarrow> Trace) \<Rightarrow> (ptr \<Rightarrow> Trace)" where
  "setSub p cs h = h(p := (h p)\<lparr>Sub := cs\<rparr>)"

definition insert_ms :: "memoryStore \<Rightarrow> ptr \<Rightarrow> ptr \<Rightarrow> memoryStore" where
  "insert_ms ms root t =
     (case lookup2 (span ms) (Trace (ID (heap ms t))) (Parent (ID (heap ms t))) of
        Some p \<Rightarrow> ms\<lparr>heap := appendSub p t (heap ms)\<rparr>
      | None \<Rightarrow> ms\<lparr>heap := appendSub root t (heap ms)\<rparr>)"

text \<open>The loop of \<open>reattachChildren\<close> over \<open>src.Sub\<close>; the state is the heap and \<open>sub2\<close>.\<close>

fun reattach_loop :: "ptr \<Rightarrow> ptr list \<Rightarrow> (ptr \<Rightarrow> Trace) \<times> ptr list \<Rightarrow> (ptr \<Rightarrow> Trace) \<times> ptr list" where
  "reattach_loop dst [] (h, sub2) = (h, sub2)"
| "reattach_loop dst (c # cs) (h, sub2) =
     (if Parent (ID (h c)) = Span (ID (h dst))
      then reattach_loop dst cs (appendSub dst c h, sub2)
      else reattach_loop dst cs (h, sub2 @ [c]))"

definition reattachChildren :: "memoryStore \<Rightarrow> ptr \<Rightarrow> ptr \<Rightarrow> error + memoryStore" where
  "reattachChildren ms dst src =
     (if dst = src then Inl (Panic ''dst == src'')
      else (case reattach_loop dst (Sub (heap ms src)) (heap ms, []) of
              (h, sub2) \<Rightarrow> Inr (ms\<lparr>heap := setSub src sub2 h\<rparr>)))"

text \<open>
  The loop in \<open>Collect\<close> that moves the old root's temporary children to the new root.
\<close>

fun move_loop :: "ptr \<Rightarrow> ptr \<Rightarrow> ptr list \<Rightarrow> (ptr \<Rightarrow> Trace) \<times> ptr list \<Rightarrow> (ptr \<Rightarrow> Trace) \<times> ptr list" where
  "move_loop root oldRoot [] (h, sub2) = (h, sub2)"
| "move_loop root oldRoot (c # cs) (h, sub2) =
     (if Parent (ID (h c)) \<noteq> Span (ID (h oldRoot))
      then move_loop root oldRoot cs (appendSub root c h, sub2)
      else move_loop root oldRoot cs (h, sub2 @ [c]))"

text \<open>"Initialize span map if needed."\<close>

definition init_span_map :: "memoryStore \<Rightarrow> SpanID \<Rightarrow> memoryStore" where
  "init_span_map ms sid =
     (case span ms (Trace sid) of
        None \<Rightarrow> ms\<lparr>span := (span ms)(Trace sid \<mapsto> Map.empty)\<rparr>
      | Some _ \<Rightarrow> ms)"

text \<open>
  "Create or update span." Writing into \<open>ms.span[sid.Trace]\<close> panics in Go when that
  inner map is nil.
\<close>

definition create_or_update :: "memoryStore \<Rightarrow> SpanID \<Rightarrow> Annotations \<Rightarrow> error + memoryStore \<times> ptr" where
  "create_or_update ms sid ans =
     (case lookup2 (span ms) (Trace sid) (Span sid) of
        None \<Rightarrow>
          (case span ms (Trace sid) of
             None \<Rightarrow> Inl (Panic ''assignment to entry in nil map'')
           | Some m \<Rightarrow>
               let s = nxt ms in
               Inr (ms\<lparr>heap := (heap ms)(s := \<lparr>ID = sid, Annotations = ans, Sub = []\<rparr>),
                        nxt := Suc s,
                        span := (span ms)(Trace sid \<mapsto> m(Span sid \<mapsto> s))\<rparr>, s))
      | Some s \<Rightarrow>
          Inr (ms\<lparr>heap := (heap ms)(s := (heap ms s)\<lparr>Annotations := Annotations (heap ms s) @ ans\<rparr>)\<rparr>, s))"

text \<open>"Create trace tree if it doesn't already exist."\<close>

definition create_tree :: "memoryStore \<Rightarrow> SpanID \<Rightarrow> ptr \<Rightarrow> memoryStore \<times> ptr" where
  "create_tree ms sid s =
     (case trace ms (Trace sid) of
        None \<Rightarrow> (ms\<lparr>trace := (trace ms)(Trace sid \<mapsto> s)\<rparr>, s)
      | Some root \<Rightarrow> (ms, root))"

text \<open>
  "If there's a temp root and we just collected the real root, fix up the tree. Or if
  we're the temp root's parents, set us up as the new temp root." Returns the store and
  the value of the local variable \<open>root\<close>.
\<close>

definition fix_root :: "memoryStore \<Rightarrow> SpanID \<Rightarrow> ptr \<Rightarrow> ptr \<Rightarrow> error + memoryStore \<times> ptr" where
  "fix_root ms sid s root =
     (let isRoot = IsRoot sid; isTempRootParent = (Parent (ID (heap ms root)) = Span sid) in
      if s \<noteq> root \<and> (isRoot \<or> isTempRootParent) then
        (let oldRoot = root; root = s;
             ms1 = ms\<lparr>trace := (trace ms)(Trace sid \<mapsto> root)\<rparr>
         in case reattachChildren ms1 root oldRoot of
              Inl e \<Rightarrow> Inl e
            | Inr ms2 \<Rightarrow>
                let ms3 = insert_ms ms2 root oldRoot in
                (case move_loop root oldRoot (Sub (heap ms3 oldRoot)) (heap ms3, []) of
                   (h, sub2) \<Rightarrow> Inr (ms3\<lparr>heap := setSub oldRoot sub2 h\<rparr>, root)))
      else Inr (ms, root))"

definition Collect_ms :: "memoryStore \<Rightarrow> SpanID \<Rightarrow> Annotations \<Rightarrow> error + memoryStore" where
  "Collect_ms ms sid ans =
     (case create_or_update (init_span_map ms sid) sid ans of
        Inl e \<Rightarrow> Inl e
      | Inr (ms2, s) \<Rightarrow>
         (case create_tree ms2 sid s of
            (ms3, root) \<Rightarrow>
              (case fix_root ms3 sid s root of
                 Inl e \<Rightarrow> Inl e
               | Inr (ms4, root') \<Rightarrow>
                   let ms5 = (if \<not> IsRoot sid \<and> s \<noteq> root' then insert_ms ms4 root' s else ms4)
                   in if s \<noteq> root' then reattachChildren ms5 s root' else Inr ms5)))"

definition Trace_ms :: "memoryStore \<Rightarrow> ID \<Rightarrow> error + ptr" where
  "Trace_ms ms sid = (case trace ms sid of None \<Rightarrow> Inl ErrTraceNotFound | Some t \<Rightarrow> Inr t)"

text \<open>A sequence of \<open>Collect\<close> calls, stopping at the first one that aborts.\<close>

fun collects :: "memoryStore \<Rightarrow> (SpanID \<times> Annotations) list \<Rightarrow> error + memoryStore" where
  "collects ms [] = Inr ms"
| "collects ms ((sid, ans) # cs) =
     (case Collect_ms ms sid ans of Inl e \<Rightarrow> Inl e | Inr ms' \<Rightarrow> collects ms' cs)"

section \<open>Auxiliary definitions used in the proofs\<close>

definition reattach_h :: "ptr \<Rightarrow> ptr \<Rightarrow> (ptr \<Rightarrow> Trace) \<Rightarrow> (ptr \<Rightarrow> Trace)" where
  "reattach_h dst src h =
     setSub src (filter (\<lambda>c. Parent (ID (h c)) \<noteq> Span (ID (h dst))) (Sub (h src)))
       (h(dst := (h dst)\<lparr>Sub := Sub (h dst) @ filter (\<lambda>c. Parent (ID (h c)) = Span (ID (h dst))) (Sub (h src))\<rparr>))"

definition moveTemp_h :: "ptr \<Rightarrow> ptr \<Rightarrow> (ptr \<Rightarrow> Trace) \<Rightarrow> (ptr \<Rightarrow> Trace)" where
  "moveTemp_h root oldRoot h =
     setSub oldRoot (filter (\<lambda>c. Parent (ID (h c)) = Span (ID (h oldRoot))) (Sub (h oldRoot)))
       (h(root := (h root)\<lparr>Sub := Sub (h root) @ filter (\<lambda>c. Parent (ID (h c)) \<noteq> Span (ID (h oldRoot))) (Sub (h oldRoot))\<rparr>))"

definition target :: "(ID \<rightharpoonup> (ID \<rightharpoonup> ptr)) \<Rightarrow> ptr \<Rightarrow> SpanID \<Rightarrow> ptr" where
  "target sp root tid = (case lookup2 sp (Trace tid) (Parent tid) of Some p \<Rightarrow> p | None \<Rightarrow> root)"

definition promote_h :: "(ID \<rightharpoonup> (ID \<rightharpoonup> ptr)) \<Rightarrow> ptr \<Rightarrow> ptr \<Rightarrow> (ptr \<Rightarrow> Trace) \<Rightarrow> (ptr \<Rightarrow> Trace)" where
  "promote_h sp s r h = moveTemp_h s r (appendSub (target sp s (ID (h r))) r (reattach_h s r h))"

definition attach_h :: "(ID \<rightharpoonup> (ID \<rightharpoonup> ptr)) \<Rightarrow> ptr \<Rightarrow> ptr \<Rightarrow> (ptr \<Rightarrow> Trace) \<Rightarrow> (ptr \<Rightarrow> Trace)" where
  "attach_h sp s r h = reattach_h s r (appendSub (target sp r (ID (h s))) s h)"

text \<open>The node looked up or created by the first two blocks of Collect.\<close>

definition inner :: "memoryStore \<Rightarrow> ID \<Rightarrow> (ID \<rightharpoonup> ptr)" where
  "inner ms t = (case span ms t of None \<Rightarrow> Map.empty | Some m \<Rightarrow> m)"

definition located :: "memoryStore \<Rightarrow> SpanID \<Rightarrow> Annotations \<Rightarrow> memoryStore \<times> ptr" where
  "located ms sid ans =
     (case lookup2 (span ms) (Trace sid) (Span sid) of
        None \<Rightarrow> (ms\<lparr>heap := (heap ms)(nxt ms := \<lparr>ID = sid, Annotations = ans, Sub = []\<rparr>),
                    nxt := Suc (nxt ms),
                    span := (span ms)(Trace sid \<mapsto> (inner ms (Trace sid))(Span sid \<mapsto> nxt ms))\<rparr>, nxt ms)
      | Some s \<Rightarrow> (ms\<lparr>heap := (heap ms)(s := (heap ms s)\<lparr>Annotations := Annotations (heap ms s) @ ans\<rparr>)\<rparr>, s))"

definition prev_annotations :: "memoryStore \<Rightarrow> SpanID \<Rightarrow> Annotations" where
  "prev_annotations ms sid =
     (case lookup2 (span ms) (Trace sid) (Span sid) of None \<Rightarrow> [] | Some q \<Rightarrow> Annotations (heap ms q))"

definition nodes :: "memoryStore \<Rightarrow> ID \<Rightarrow> ptr set" where
  "nodes ms t = {p. \<exists>k. lookup2 (span ms) t k = Some p}"

definition closed :: "ptr set \<Rightarrow> (ptr \<Rightarrow> Trace) \<Rightarrow> bool" where
  "closed R h = (\<forall>p\<in>R. set (Sub (h p)) \<subseteq> R)"

definition wf_nodes :: "memoryStore \<Rightarrow> bool" where
  "wf_nodes ms \<longleftrightarrow>
     (\<forall>t k p. lookup2 (span ms) t k = Some p \<longrightarrow>
        p < nxt ms \<and> Trace (ID (heap ms p)) = t \<and> Span (ID (heap ms p)) = k) \<and>
     (\<forall>t. closed (nodes ms t) (heap ms))"

definition wf_store :: "memoryStore \<Rightarrow> bool" where
  "wf_store ms \<longleftrightarrow>
     wf_nodes ms \<and>
     (\<forall>t r. trace ms t = Some r \<longrightarrow> r \<in> nodes ms t) \<and>
     (\<forall>t. trace ms t = None \<longrightarrow> nodes ms t = {})"

definition run :: "(SpanID \<times> Annotations) list \<Rightarrow> memoryStore" where
  "run cs = (case collects NewMemoryStore cs of Inl e \<Rightarrow> NewMemoryStore | Inr ms \<Rightarrow> ms)"

definition SpanIDDelimiter :: string where
  "SpanIDDelimiter = ''/''"

text \<open>
  \<open>fmt.Sprintf\<close> with \<open>%s\<close> prints an \<open>ID\<close> through its \<open>String\<close> method, which like \<open>ParseID\<close>
  is declared with the type \<open>ID\<close>, outside the sources at hand. Both are parameters here:
  \<open>idString\<close> and \<open>parseID\<close>.
\<close>

definition SpanID_String :: "(ID \<Rightarrow> string) \<Rightarrow> SpanID \<Rightarrow> string" where
  "SpanID_String idString sid =
     (if Parent sid = 0 then idString (Trace sid) @ SpanIDDelimiter @ idString (Span sid)
      else idString (Trace sid) @ SpanIDDelimiter @ idString (Span sid) @ SpanIDDelimiter
           @ idString (Parent sid))"

text \<open>
  \<open>strings.Split(s, sep)\<close> of the Go library for a separator that is not empty: the
  pieces of \<open>s\<close> between the occurrences of \<open>sep\<close>, found from left to right. \<open>cur\<close> is the
  piece being read, in reverse.
\<close>

function split_from :: "string \<Rightarrow> string \<Rightarrow> string \<Rightarrow> string list" where
  "split_from sep cur [] = [rev cur]"
| "split_from sep cur (c # cs) =
     (if sep \<noteq> [] \<and> take (length sep) (c # cs) = sep
      then rev cur # split_from sep [] (drop (length sep) (c # cs))
      else split_from sep (c # cur) cs)"
  by pat_completeness auto
termination
  by (relation "measure (\<lambda>(sep, cur, s). length s)") auto

definition strings_Split :: "string \<Rightarrow> string \<Rightarrow> string list" where
  "strings_Split s sep = split_from sep [] s"

definition ParseSpanID :: "(string \<Rightarrow> 'e + ID) \<Rightarrow> string \<Rightarrow> error + SpanID" where
  "ParseSpanID parseID s =
     (let parts = strings_Split s SpanIDDelimiter in
      if length parts \<noteq> 2 \<and> length parts \<noteq> 3 then Inl ErrBadSpanID
      else (case parseID (parts ! 0) of
              Inl err \<Rightarrow> Inl ErrBadSpanID
            | Inr root \<Rightarrow>
               (case parseID (parts ! 1) of
                  Inl err \<Rightarrow> Inl ErrBadSpanID
                | Inr sid \<Rightarrow>
                    if length parts = 3
                    then (case parseID (parts ! 2) of
                            Inl err \<Rightarrow> Inl ErrBadSpanID
                          | Inr i \<Rightarrow> Inr \<lparr>Trace = root, Span = sid, Parent = i\<rparr>)
                    else Inr \<lparr>Trace = root, Span = sid, Parent = 0\<rparr>)))"

text \<open>
  Modelled from the spec: the text form of an identifier is the lower-case hexadecimal
  form of its bytes, and parsing decodes hexadecimal digits into an identifier. Used to
  instantiate the two parameters.
\<close>

definition hexchar :: "nat \<Rightarrow> char" where
  "hexchar d = ''0123456789abcdef'' ! d"

definition hexval :: "char \<Rightarrow> nat option" where
  "hexval c =
     (let n = (of_char c :: nat) in
      if 48 \<le> n \<and> n \<le> 57 then Some (n - 48)
      else if 97 \<le> n \<and> n \<le> 102 then Some (n - 87)
      else if 65 \<le> n \<and> n \<le> 70 then Some (n - 55)
      else None)"

fun hex_digits :: "nat \<Rightarrow> nat \<Rightarrow> string" where
  "hex_digits 0 n = []"
| "hex_digits (Suc k) n = hex_digits k (n div 16) @ [hexchar (n mod 16)]"

definition hexString :: "ID \<Rightarrow> string" where
  "hexString x = hex_digits 16 (unat x)"

fun hex_value :: "nat \<Rightarrow> string \<Rightarrow> nat option" where
  "hex_value acc [] = Some acc"
| "hex_value acc (c # cs) = (case hexval c of None \<Rightarrow> None | Some d \<Rightarrow> hex_value (acc * 16 + d) cs)"

definition parseHex :: "string \<Rightarrow> error + ID" where
  "parseHex s =
     (if s = [] then Inl ErrBadSpanID
      else (case hex_value 0 s of
              None \<Rightarrow> Inl ErrBadSpanID
            | Some n \<Rightarrow> if n < 2 ^ 64 then Inr (of_nat n) else Inl ErrBadSpanID))"

definition codec_ok :: "(ID \<Rightarrow> string) \<Rightarrow> (string \<Rightarrow> 'e + ID) \<Rightarrow> ID \<Rightarrow> bool" where
  "codec_ok idString parseID x \<longleftrightarrow> parseID (idString x) = Inr x \<and> CHR ''/'' \<notin> set (idString x)"

section \<open>The shape of a trace whose spans arrive once each\<close>



definition spans_for :: "ID \<Rightarrow> (SpanID \<times> Annotations) list \<Rightarrow> SpanID list" where
  "spans_for t cs = map fst (filter (\<lambda>c. Trace (fst c) = t) cs)"



section \<open>The two loops in closed form\<close>

lemma ID_appendSub [simp]: "ID (appendSub p c h x) = ID (h x)"
  by (simp add: appendSub_def)

lemma Annotations_appendSub [simp]: "Annotations (appendSub p c h x) = Annotations (h x)"
  by (simp add: appendSub_def)

lemma Sub_appendSub [simp]:
  "Sub (appendSub p c h x) = (if x = p then Sub (h x) @ [c] else Sub (h x))"
  by (simp add: appendSub_def)

lemma ID_setSub [simp]: "ID (setSub p cs h x) = ID (h x)"
  by (simp add: setSub_def)

lemma Annotations_setSub [simp]: "Annotations (setSub p cs h x) = Annotations (h x)"
  by (simp add: setSub_def)

lemma Sub_setSub [simp]: "Sub (setSub p cs h x) = (if x = p then cs else Sub (h x))"
  by (simp add: setSub_def)

lemma reattach_loop_gen:
  "\<forall>x. ID (h x) = ID (h0 x) \<Longrightarrow> reattach_loop dst cs (h, sub2) =
     (h(dst := (h dst)\<lparr>Sub := Sub (h dst) @ filter (\<lambda>c. Parent (ID (h0 c)) = Span (ID (h0 dst))) cs\<rparr>),
      sub2 @ filter (\<lambda>c. Parent (ID (h0 c)) \<noteq> Span (ID (h0 dst))) cs)"
proof (induction cs arbitrary: h sub2)
  case Nil
  show ?case by simp
next
  case (Cons c cs)
  show ?case
  proof (cases "Parent (ID (h0 c)) = Span (ID (h0 dst))")
    case True
    have 1: "\<forall>x. ID (appendSub dst c h x) = ID (h0 x)"
      using Cons.prems by (simp add: appendSub_def)
    have "reattach_loop dst (c # cs) (h, sub2) = reattach_loop dst cs (appendSub dst c h, sub2)"
      using True Cons.prems by simp
    also note Cons.IH [OF 1]
    finally show ?thesis
      using True Cons.prems by (auto simp: appendSub_def fun_eq_iff)
  next
    case False
    then show ?thesis
      using Cons.prems by (simp add: Cons.IH [OF Cons.prems])
  qed
qed

lemma reattach_loop_eq:
  "reattach_loop dst cs (h, sub2) =
     (h(dst := (h dst)\<lparr>Sub := Sub (h dst) @ filter (\<lambda>c. Parent (ID (h c)) = Span (ID (h dst))) cs\<rparr>),
      sub2 @ filter (\<lambda>c. Parent (ID (h c)) \<noteq> Span (ID (h dst))) cs)"
  by (rule reattach_loop_gen) simp

lemma move_loop_gen:
  "\<forall>x. ID (h x) = ID (h0 x) \<Longrightarrow> move_loop root oldRoot cs (h, sub2) =
     (h(root := (h root)\<lparr>Sub := Sub (h root) @ filter (\<lambda>c. Parent (ID (h0 c)) \<noteq> Span (ID (h0 oldRoot))) cs\<rparr>),
      sub2 @ filter (\<lambda>c. Parent (ID (h0 c)) = Span (ID (h0 oldRoot))) cs)"
proof (induction cs arbitrary: h sub2)
  case Nil
  show ?case by simp
next
  case (Cons c cs)
  show ?case
  proof (cases "Parent (ID (h0 c)) \<noteq> Span (ID (h0 oldRoot))")
    case True
    have 1: "\<forall>x. ID (appendSub root c h x) = ID (h0 x)"
      using Cons.prems by (simp add: appendSub_def)
    have "move_loop root oldRoot (c # cs) (h, sub2) = move_loop root oldRoot cs (appendSub root c h, sub2)"
      using True Cons.prems by simp
    also note Cons.IH [OF 1]
    finally show ?thesis
      using True Cons.prems by (auto simp: appendSub_def fun_eq_iff)
  next
    case False
    then show ?thesis
      using Cons.prems by (simp add: Cons.IH [OF Cons.prems])
  qed
qed

lemma move_loop_eq:
  "move_loop root oldRoot cs (h, sub2) =
     (h(root := (h root)\<lparr>Sub := Sub (h root) @ filter (\<lambda>c. Parent (ID (h c)) \<noteq> Span (ID (h oldRoot))) cs\<rparr>),
      sub2 @ filter (\<lambda>c. Parent (ID (h c)) = Span (ID (h oldRoot))) cs)"
  by (rule move_loop_gen) simp

section \<open>Collect never aborts\<close>

lemma reattachChildren_ok: "dst \<noteq> src \<Longrightarrow> \<exists>ms'. reattachChildren ms dst src = Inr ms'"
  by (simp add: reattachChildren_def split: prod.splits)

lemma fix_root_ok: "\<exists>ms' r. fix_root ms sid s root = Inr (ms', r) \<and> (r = s \<or> r = root)"
  by (auto simp: fix_root_def Let_def reattachChildren_def split: prod.splits sum.splits)

lemma create_or_update_ok:
  "\<exists>ms' s. create_or_update (init_span_map ms sid) sid ans = Inr (ms', s)"
  by (auto simp: create_or_update_def init_span_map_def lookup2_def Let_def split: option.splits)

lemma Collect_ms_total: "\<exists>ms'. Collect_ms ms sid ans = Inr ms'"
proof -
  obtain ms2 s where 1: "create_or_update (init_span_map ms sid) sid ans = Inr (ms2, s)"
    using create_or_update_ok by blast
  obtain ms3 root where 2: "create_tree ms2 sid s = (ms3, root)"
    by (cases "create_tree ms2 sid s")
  obtain ms4 r where 3: "fix_root ms3 sid s root = Inr (ms4, r)"
    using fix_root_ok by blast
  show ?thesis
    using reattachChildren_ok [of s r]
    by (simp add: Collect_ms_def 1 2 3 Let_def)
qed

lemma collects_total: "\<exists>ms'. collects ms cs = Inr ms'"
proof (induction cs arbitrary: ms)
  case Nil
  show ?case by simp
next
  case (Cons c cs)
  obtain sid ans where c: "c = (sid, ans)"
    by (cases c)
  obtain ms1 where 1: "Collect_ms ms sid ans = Inr ms1"
    using Collect_ms_total by blast
  show ?case
    using Cons.IH [of ms1] by (simp add: c 1)
qed

text \<open>
  Claim C6. The in-memory \<open>Collect\<close> returns a nil error from every store state, for every
  span identifier and annotation list, and never aborts. \<open>reattachChildren\<close> does panic when
  its two arguments are the same node, but no call made by \<open>Collect\<close> is of that form, and
  the write into the inner span map never hits a nil map.
\<close>

theorem Collect_never_aborts:
  "reattachChildren ms p p = Inl (Panic ''dst == src'') \<and> (\<exists>ms'. Collect_ms ms sid ans = Inr ms')"
proof -
  obtain ms2 s where 1: "create_or_update (init_span_map ms sid) sid ans = Inr (ms2, s)"
    using create_or_update_ok by blast
  obtain ms3 root where 2: "create_tree ms2 sid s = (ms3, root)"
    by (cases "create_tree ms2 sid s")
  obtain ms4 r where 3: "fix_root ms3 sid s root = Inr (ms4, r)"
    using fix_root_ok by blast
  have "\<exists>ms'. Collect_ms ms sid ans = Inr ms'"
    using reattachChildren_ok [of s r]
    by (simp add: Collect_ms_def 1 2 3 Let_def)
  then show ?thesis
    by (simp add: reattachChildren_def)
qed

section \<open>Collect in closed form\<close>

lemma ID_reattach_h [simp]: "ID (reattach_h dst src h x) = ID (h x)"
  by (simp add: reattach_h_def)

lemma Annotations_reattach_h [simp]: "Annotations (reattach_h dst src h x) = Annotations (h x)"
  by (simp add: reattach_h_def)

lemma Sub_reattach_h [simp]:
  "Sub (reattach_h dst src h x) =
     (if x = src then filter (\<lambda>c. Parent (ID (h c)) \<noteq> Span (ID (h dst))) (Sub (h src))
      else if x = dst then Sub (h dst) @ filter (\<lambda>c. Parent (ID (h c)) = Span (ID (h dst))) (Sub (h src))
      else Sub (h x))"
  by (simp add: reattach_h_def)

lemma ID_moveTemp_h [simp]: "ID (moveTemp_h root oldRoot h x) = ID (h x)"
  by (simp add: moveTemp_h_def)

lemma Annotations_moveTemp_h [simp]: "Annotations (moveTemp_h root oldRoot h x) = Annotations (h x)"
  by (simp add: moveTemp_h_def)

lemma Sub_moveTemp_h [simp]:
  "Sub (moveTemp_h root oldRoot h x) =
     (if x = oldRoot then filter (\<lambda>c. Parent (ID (h c)) = Span (ID (h oldRoot))) (Sub (h oldRoot))
      else if x = root then Sub (h root) @ filter (\<lambda>c. Parent (ID (h c)) \<noteq> Span (ID (h oldRoot))) (Sub (h oldRoot))
      else Sub (h x))"
  by (simp add: moveTemp_h_def)

lemma reattachChildren_eq:
  "dst \<noteq> src \<Longrightarrow> reattachChildren ms dst src = Inr (ms\<lparr>heap := reattach_h dst src (heap ms)\<rparr>)"
  by (simp add: reattachChildren_def reattach_loop_eq reattach_h_def)

lemma insert_ms_eq:
  "insert_ms ms root t = ms\<lparr>heap := appendSub (target (span ms) root (ID (heap ms t))) t (heap ms)\<rparr>"
  by (simp add: insert_ms_def target_def split: option.splits)

lemma fix_root_eq:
  "fix_root ms sid s root =
     (if s \<noteq> root \<and> (IsRoot sid \<or> Parent (ID (heap ms root)) = Span sid)
      then Inr (ms\<lparr>trace := (trace ms)(Trace sid \<mapsto> s), heap := promote_h (span ms) s root (heap ms)\<rparr>, s)
      else Inr (ms, root))"
  by (simp add: fix_root_def Let_def reattachChildren_eq insert_ms_eq move_loop_eq promote_h_def moveTemp_h_def)

lemma create_or_update_eq:
  "create_or_update (init_span_map ms sid) sid ans = Inr (located ms sid ans)"
  by (auto simp: create_or_update_def init_span_map_def located_def lookup2_def inner_def Let_def
      split: option.splits)

lemma Collect_ms_eq:
  "Collect_ms ms sid ans =
     (case located ms sid ans of (ms2, s) \<Rightarrow>
        (case trace ms (Trace sid) of
           None \<Rightarrow> Inr (ms2\<lparr>trace := (trace ms)(Trace sid \<mapsto> s)\<rparr>)
         | Some r \<Rightarrow>
             if s = r then Inr ms2
             else if IsRoot sid \<or> Parent (ID (heap ms2 r)) = Span sid
             then Inr (ms2\<lparr>trace := (trace ms)(Trace sid \<mapsto> s), heap := promote_h (span ms2) s r (heap ms2)\<rparr>)
             else Inr (ms2\<lparr>heap := attach_h (span ms2) s r (heap ms2)\<rparr>)))"
proof -
  obtain ms2 s where l: "located ms sid ans = (ms2, s)"
    by (cases "located ms sid ans")
  have t: "trace ms2 = trace ms"
    using l by (auto simp: located_def split: option.splits)
  show ?thesis
    by (auto simp: Collect_ms_def create_or_update_eq l t create_tree_def fix_root_eq Let_def
        reattachChildren_eq insert_ms_eq attach_h_def split: option.splits)
qed

lemma ID_promote_h [simp]: "ID (promote_h sp s r h x) = ID (h x)"
  by (simp add: promote_h_def)

lemma Annotations_promote_h [simp]: "Annotations (promote_h sp s r h x) = Annotations (h x)"
  by (simp add: promote_h_def)

lemma ID_attach_h [simp]: "ID (attach_h sp s r h x) = ID (h x)"
  by (simp add: attach_h_def)

lemma Annotations_attach_h [simp]: "Annotations (attach_h sp s r h x) = Annotations (h x)"
  by (simp add: attach_h_def)

lemma lookup2_upd [simp]:
  "lookup2 (sp(t \<mapsto> m)) t' k = (if t' = t then m k else lookup2 sp t' k)"
  by (simp add: lookup2_def)

lemma inner_lookup [simp]: "inner ms t k = lookup2 (span ms) t k"
  by (simp add: inner_def lookup2_def split: option.splits)

lemma Collect_ms_annotations:
  "\<exists>ms' s. Collect_ms ms sid ans = Inr ms' \<and> lookup2 (span ms') (Trace sid) (Span sid) = Some s
      \<and> Annotations (heap ms' s) = prev_annotations ms sid @ ans"
  by (auto simp: Collect_ms_eq located_def prev_annotations_def split: option.splits)

lemma Collect_ms_trace_dom:
  "Collect_ms ms sid ans = Inr ms' \<Longrightarrow> dom (trace ms') = insert (Trace sid) (dom (trace ms))"
  by (auto simp: Collect_ms_eq located_def split: option.splits if_splits)

lemma collects_trace_dom:
  "collects ms cs = Inr ms' \<Longrightarrow> dom (trace ms') = dom (trace ms) \<union> (Trace \<circ> fst) ` set cs"
proof (induction cs arbitrary: ms)
  case Nil
  then show ?case by simp
next
  case (Cons c cs)
  obtain sid ans where c: "c = (sid, ans)"
    by (cases c)
  obtain ms1 where 1: "Collect_ms ms sid ans = Inr ms1"
    using Collect_ms_total by blast
  have "collects ms1 cs = Inr ms'"
    using Cons.prems by (simp add: c 1)
  from Cons.IH [OF this] Collect_ms_trace_dom [OF 1] show ?case
    by (auto simp: c)
qed

lemma nodes_heap_update [simp]: "nodes (ms\<lparr>heap := h\<rparr>) t = nodes ms t"
  by (simp add: nodes_def)

lemma nodes_trace_update [simp]: "nodes (ms\<lparr>trace := tr\<rparr>) t = nodes ms t"
  by (simp add: nodes_def)

lemma wf_nodesD1:
  "wf_nodes ms \<Longrightarrow> lookup2 (span ms) t k = Some p \<Longrightarrow>
     p < nxt ms \<and> Trace (ID (heap ms p)) = t \<and> Span (ID (heap ms p)) = k"
  by (simp add: wf_nodes_def)

lemma wf_nodes_node:
  "wf_nodes ms \<Longrightarrow> p \<in> nodes ms t \<Longrightarrow>
     p < nxt ms \<and> Trace (ID (heap ms p)) = t \<and> lookup2 (span ms) t (Span (ID (heap ms p))) = Some p"
  by (auto simp: nodes_def dest: wf_nodesD1)

lemma wf_nodes_closed: "wf_nodes ms \<Longrightarrow> closed (nodes ms t) (heap ms)"
  by (simp add: wf_nodes_def)

lemma wf_store_nodes: "wf_store ms \<Longrightarrow> wf_nodes ms"
  by (simp add: wf_store_def)

lemma wf_storeD1:
  "wf_store ms \<Longrightarrow> lookup2 (span ms) t k = Some p \<Longrightarrow>
     p < nxt ms \<and> Trace (ID (heap ms p)) = t \<and> Span (ID (heap ms p)) = k"
  by (simp add: wf_store_def wf_nodes_def)

lemma wf_store_node:
  "wf_store ms \<Longrightarrow> p \<in> nodes ms t \<Longrightarrow>
     p < nxt ms \<and> Trace (ID (heap ms p)) = t \<and> lookup2 (span ms) t (Span (ID (heap ms p))) = Some p"
  by (auto simp: nodes_def dest: wf_storeD1)

lemma wf_store_root: "wf_store ms \<Longrightarrow> trace ms t = Some r \<Longrightarrow> r \<in> nodes ms t"
  by (simp add: wf_store_def)

lemma wf_store_closed: "wf_store ms \<Longrightarrow> closed (nodes ms t) (heap ms)"
  by (simp add: wf_store_def wf_nodes_def)

lemma wf_store_empty: "wf_store ms \<Longrightarrow> trace ms t = None \<Longrightarrow> nodes ms t = {}"
  by (simp add: wf_store_def)

lemma target_in_nodes: "target (span ms) root tid \<in> insert root (nodes ms (Trace tid))"
  by (auto simp: target_def nodes_def split: option.splits)

lemma closed_appendSub: "closed R h \<Longrightarrow> c \<in> R \<Longrightarrow> closed R (appendSub p c h)"
  by (auto simp: closed_def)

lemma closed_reattach_h: "closed R h \<Longrightarrow> src \<in> R \<Longrightarrow> closed R (reattach_h dst src h)"
  by (auto simp: closed_def)

lemma closed_moveTemp_h: "closed R h \<Longrightarrow> oldRoot \<in> R \<Longrightarrow> closed R (moveTemp_h root oldRoot h)"
  by (auto simp: closed_def)

lemma closed_promote_h: "closed R h \<Longrightarrow> r \<in> R \<Longrightarrow> closed R (promote_h sp s r h)"
  by (simp add: promote_h_def closed_moveTemp_h closed_appendSub closed_reattach_h)

lemma closed_attach_h: "closed R h \<Longrightarrow> r \<in> R \<Longrightarrow> s \<in> R \<Longrightarrow> closed R (attach_h sp s r h)"
  by (simp add: attach_h_def closed_appendSub closed_reattach_h)

lemma Sub_promote_h_other:
  "x \<noteq> s \<Longrightarrow> x \<noteq> r \<Longrightarrow> x \<noteq> target sp s (ID (h r)) \<Longrightarrow> Sub (promote_h sp s r h x) = Sub (h x)"
  by (simp add: promote_h_def)

lemma Sub_attach_h_other:
  "x \<noteq> s \<Longrightarrow> x \<noteq> r \<Longrightarrow> x \<noteq> target sp r (ID (h s)) \<Longrightarrow> Sub (attach_h sp s r h x) = Sub (h x)"
  by (simp add: attach_h_def)

lemma closed_cong: "closed R h \<Longrightarrow> \<forall>p\<in>R. Sub (h' p) = Sub (h p) \<Longrightarrow> closed R h'"
  by (simp add: closed_def)

text \<open>What the first two blocks of Collect establish.\<close>

lemma located_facts:
  assumes wf: "wf_store ms" and l: "located ms sid ans = (ms2, s)"
  shows "trace ms2 = trace ms"
    and "lookup2 (span ms2) t k = (if t = Trace sid \<and> k = Span sid then Some s else lookup2 (span ms) t k)"
    and "nodes ms2 t = (if t = Trace sid then insert s (nodes ms t) else nodes ms t)"
    and "nxt ms \<le> nxt ms2" and "s < nxt ms2"
    and "Trace (ID (heap ms2 s)) = Trace sid" and "Span (ID (heap ms2 s)) = Span sid"
    and "x \<noteq> s \<Longrightarrow> heap ms2 x = heap ms x"
    and "s \<in> nodes ms (Trace sid) \<Longrightarrow> ID (heap ms2 s) = ID (heap ms s) \<and> Sub (heap ms2 s) = Sub (heap ms s)"
    and "s \<notin> nodes ms (Trace sid) \<Longrightarrow> s = nxt ms \<and> lookup2 (span ms) (Trace sid) (Span sid) = None \<and> ID (heap ms2 s) = sid \<and> Sub (heap ms2 s) = []"
proof -
  show "trace ms2 = trace ms"
    using l by (auto simp: located_def split: option.splits)
  show 2: "lookup2 (span ms2) t k = (if t = Trace sid \<and> k = Span sid then Some s else lookup2 (span ms) t k)"
    using l by (auto simp: located_def split: option.splits)
  have 3: "lookup2 (span ms) (Trace sid) (Span sid) = None \<or> lookup2 (span ms) (Trace sid) (Span sid) = Some s"
    using l by (auto simp: located_def split: option.splits)
  have 4: "\<And>t k. lookup2 (span ms2) t k = (if t = Trace sid \<and> k = Span sid then Some s else lookup2 (span ms) t k)"
    using l by (auto simp: located_def split: option.splits)
  show "nodes ms2 t = (if t = Trace sid then insert s (nodes ms t) else nodes ms t)"
  proof (cases "t = Trace sid")
    case True
    have "(\<exists>k. lookup2 (span ms2) t k = Some p) \<longleftrightarrow> p = s \<or> (\<exists>k. lookup2 (span ms) t k = Some p)" for p
    proof
      assume "\<exists>k. lookup2 (span ms2) t k = Some p"
      then obtain k where "lookup2 (span ms2) t k = Some p" ..
      then show "p = s \<or> (\<exists>k. lookup2 (span ms) t k = Some p)"
        by (cases "k = Span sid") (auto simp: 4 True)
    next
      assume "p = s \<or> (\<exists>k. lookup2 (span ms) t k = Some p)"
      then show "\<exists>k. lookup2 (span ms2) t k = Some p"
      proof
        assume "p = s"
        then have "lookup2 (span ms2) t (Span sid) = Some p"
          by (simp add: 4 True)
        then show ?thesis ..
      next
        assume "\<exists>k. lookup2 (span ms) t k = Some p"
        then obtain k where k: "lookup2 (span ms) t k = Some p" ..
        have "lookup2 (span ms2) t k = Some p"
          using k 3 True by (cases "k = Span sid") (auto simp: 4)
        then show ?thesis ..
      qed
    qed
    then show ?thesis
      using True by (auto simp: nodes_def)
  next
    case False
    then show ?thesis
      by (simp add: nodes_def 4)
  qed
  show "nxt ms \<le> nxt ms2" "s < nxt ms2"
    using l wf by (auto simp: located_def split: option.splits dest: wf_storeD1)
  show "Trace (ID (heap ms2 s)) = Trace sid" "Span (ID (heap ms2 s)) = Span sid"
    using l wf by (auto simp: located_def split: option.splits dest: wf_storeD1)
  show "x \<noteq> s \<Longrightarrow> heap ms2 x = heap ms x"
    using l by (auto simp: located_def split: option.splits)
  show "s \<in> nodes ms (Trace sid) \<Longrightarrow> ID (heap ms2 s) = ID (heap ms s) \<and> Sub (heap ms2 s) = Sub (heap ms s)"
    using l wf by (auto simp: located_def nodes_def split: option.splits dest: wf_storeD1)
  show "s \<notin> nodes ms (Trace sid) \<Longrightarrow> s = nxt ms \<and> lookup2 (span ms) (Trace sid) (Span sid) = None \<and> ID (heap ms2 s) = sid \<and> Sub (heap ms2 s) = []"
    using l wf by (auto simp: located_def nodes_def split: option.splits dest: wf_storeD1)
qed

lemma located_wf_nodes:
  assumes wf: "wf_store ms" and l: "located ms sid ans = (ms2, s)"
  shows "wf_nodes ms2"
proof -
  note lf = located_facts [OF wf l]
  have old: "p \<in> nodes ms t \<Longrightarrow> p \<noteq> s \<or> (t = Trace sid \<and> s \<in> nodes ms (Trace sid))" for p t
    using lf(10) wf_store_node [OF wf, of p t] wf_store_node [OF wf, of s "Trace sid"]
    by (cases "s \<in> nodes ms (Trace sid)") auto
  have 1: "p < nxt ms2 \<and> Trace (ID (heap ms2 p)) = t \<and> Span (ID (heap ms2 p)) = k"
    if p: "lookup2 (span ms2) t k = Some p" for t k p
  proof (cases "t = Trace sid \<and> k = Span sid")
    case True
    then show ?thesis
      using p lf(2) [of t k] lf(5,6,7) by simp
  next
    case False
    then have q: "lookup2 (span ms) t k = Some p"
      using p lf(2) [of t k] by (auto split: if_splits)
    then have n: "p \<in> nodes ms t"
      by (auto simp: nodes_def)
    have "ID (heap ms2 p) = ID (heap ms p)"
      using old [OF n] lf(8) [of p] lf(9) by (cases "p = s") auto
    then show ?thesis
      using wf_storeD1 [OF wf q] lf(4) by simp
  qed
  have 2: "closed (nodes ms2 t) (heap ms2)" for t
    unfolding closed_def
  proof
    fix p
    assume p: "p \<in> nodes ms2 t"
    show "set (Sub (heap ms2 p)) \<subseteq> nodes ms2 t"
    proof (cases "p \<in> nodes ms t")
      case True
      have "Sub (heap ms2 p) = Sub (heap ms p)"
        using old [OF True] lf(8) [of p] lf(9) by (cases "p = s") auto
      moreover have "set (Sub (heap ms p)) \<subseteq> nodes ms t"
        using wf_store_closed [OF wf, of t] True by (simp add: closed_def)
      ultimately show ?thesis
        using lf(3) [of t] by auto
    next
      case False
      then have ps: "p = s" "t = Trace sid"
        using p lf(3) [of t] by (auto split: if_splits)
      then have "s \<notin> nodes ms (Trace sid)"
        using False by simp
      then have "Sub (heap ms2 s) = []"
        using lf(10) by blast
      then show ?thesis
        using ps by simp
    qed
  qed
  show ?thesis
    using 1 2 by (simp add: wf_nodes_def)
qed

lemma wf_nodes_disjoint: "wf_nodes ms \<Longrightarrow> p \<in> nodes ms t \<Longrightarrow> p \<in> nodes ms t' \<Longrightarrow> t = t'"
  by (auto dest: wf_nodes_node)

lemma wf_nodes_heap:
  assumes "wf_nodes ms" and "\<forall>x. ID (h x) = ID (heap ms x)"
    and "closed (nodes ms t0) h"
    and "\<forall>t p. t \<noteq> t0 \<longrightarrow> p \<in> nodes ms t \<longrightarrow> Sub (h p) = Sub (heap ms p)"
  shows "wf_nodes (ms\<lparr>heap := h\<rparr>)"
proof -
  have "closed (nodes ms t) h" for t
  proof (cases "t = t0")
    case True
    then show ?thesis using assms(3) by simp
  next
    case False
    then show ?thesis
      using wf_nodes_closed [OF assms(1), of t] assms(4) by (auto intro: closed_cong)
  qed
  then show ?thesis
    using assms(1,2) by (simp add: wf_nodes_def)
qed

lemma Collect_ms_wf:
  assumes wf: "wf_store ms" and c: "Collect_ms ms sid ans = Inr ms'"
  shows "wf_store ms'"
proof -
  obtain ms2 s where l: "located ms sid ans = (ms2, s)"
    by (cases "located ms sid ans")
  note lf = located_facts [OF wf l]
  note wn = located_wf_nodes [OF wf l]
  have s: "s \<in> nodes ms2 (Trace sid)"
    using lf(3) [of "Trace sid"] by simp
  have mono: "nodes ms t \<subseteq> nodes ms2 t" for t
    using lf(3) [of t] by auto
  have other: "t \<noteq> Trace sid \<Longrightarrow> nodes ms2 t = nodes ms t" for t
    using lf(3) [of t] by simp
  show ?thesis
  proof (cases "trace ms (Trace sid)")
    case None
    then have "ms' = ms2\<lparr>trace := (trace ms)(Trace sid \<mapsto> s)\<rparr>"
      using c by (simp add: Collect_ms_eq l)
    moreover have "wf_nodes (ms2\<lparr>trace := (trace ms)(Trace sid \<mapsto> s)\<rparr>)"
      using wn by (simp add: wf_nodes_def)
    ultimately show ?thesis
      using s wf_store_root [OF wf] wf_store_empty [OF wf] mono other
      by (auto simp: wf_store_def)
  next
    case (Some r)
    have r: "r \<in> nodes ms2 (Trace sid)"
      using wf_store_root [OF wf Some] mono by auto
    have tr: "\<forall>t r. trace ms t = Some r \<longrightarrow> r \<in> nodes ms2 t"
      using wf_store_root [OF wf] mono by auto
    have em: "\<forall>t. trace ms t = None \<longrightarrow> nodes ms2 t = {}"
      using wf_store_empty [OF wf] other Some by (metis option.distinct(1))
    have rt: "Trace (ID (heap ms2 r)) = Trace sid" and st: "Trace (ID (heap ms2 s)) = Trace sid"
      using wf_nodes_node [OF wn r] wf_nodes_node [OF wn s] by simp_all
    consider (same) "s = r"
      | (promote) "s \<noteq> r" "IsRoot sid \<or> Parent (ID (heap ms2 r)) = Span sid"
      | (attach) "s \<noteq> r" "\<not> (IsRoot sid \<or> Parent (ID (heap ms2 r)) = Span sid)"
      by blast
    then show ?thesis
    proof cases
      case same
      then have "ms' = ms2"
        using c Some by (simp add: Collect_ms_eq l)
      then show ?thesis
        using wn tr em lf(1) by (simp add: wf_store_def)
    next
      case promote
      let ?h = "promote_h (span ms2) s r (heap ms2)"
      have ms': "ms' = ms2\<lparr>trace := (trace ms)(Trace sid \<mapsto> s), heap := ?h\<rparr>"
        using c Some promote by (simp add: Collect_ms_eq l)
      have tg: "target (span ms2) s (ID (heap ms2 r)) \<in> nodes ms2 (Trace sid)"
        using target_in_nodes [of ms2 s "ID (heap ms2 r)"] s rt by auto
      have "wf_nodes (ms2\<lparr>heap := ?h\<rparr>)"
      proof (rule wf_nodes_heap [OF wn, where ?t0.0 = "Trace sid"])
        show "\<forall>x. ID (?h x) = ID (heap ms2 x)" by simp
        show "closed (nodes ms2 (Trace sid)) ?h"
          using wf_nodes_closed [OF wn] r by (rule closed_promote_h)
        show "\<forall>t p. t \<noteq> Trace sid \<longrightarrow> p \<in> nodes ms2 t \<longrightarrow> Sub (?h p) = Sub (heap ms2 p)"
          using wf_nodes_disjoint [OF wn _ s] wf_nodes_disjoint [OF wn _ r] wf_nodes_disjoint [OF wn _ tg]
          by (auto intro!: Sub_promote_h_other)
      qed
      then have "wf_nodes ms'"
        by (simp add: ms' wf_nodes_def)
      then show ?thesis
        using tr em s by (auto simp: wf_store_def ms')
    next
      case attach
      let ?h = "attach_h (span ms2) s r (heap ms2)"
      have ms': "ms' = ms2\<lparr>heap := ?h\<rparr>"
        using c Some attach by (simp add: Collect_ms_eq l)
      have tg: "target (span ms2) r (ID (heap ms2 s)) \<in> nodes ms2 (Trace sid)"
        using target_in_nodes [of ms2 r "ID (heap ms2 s)"] r st by auto
      have "wf_nodes (ms2\<lparr>heap := ?h\<rparr>)"
      proof (rule wf_nodes_heap [OF wn, where ?t0.0 = "Trace sid"])
        show "\<forall>x. ID (?h x) = ID (heap ms2 x)" by simp
        show "closed (nodes ms2 (Trace sid)) ?h"
          using wf_nodes_closed [OF wn] r s by (rule closed_attach_h)
        show "\<forall>t p. t \<noteq> Trace sid \<longrightarrow> p \<in> nodes ms2 t \<longrightarrow> Sub (?h p) = Sub (heap ms2 p)"
          using wf_nodes_disjoint [OF wn _ s] wf_nodes_disjoint [OF wn _ r] wf_nodes_disjoint [OF wn _ tg]
          by (auto intro!: Sub_attach_h_other)
      qed
      then show ?thesis
        using tr em lf(1) by (auto simp: wf_store_def ms')
    qed
  qed
qed

lemma wf_NewMemoryStore: "wf_store NewMemoryStore"
  by (simp add: wf_store_def wf_nodes_def NewMemoryStore_def nodes_def lookup2_def closed_def)

lemma collects_wf: "wf_store ms \<Longrightarrow> collects ms cs = Inr ms' \<Longrightarrow> wf_store ms'"
proof (induction cs arbitrary: ms)
  case Nil
  then show ?case by simp
next
  case (Cons c cs)
  obtain sid ans where c: "c = (sid, ans)"
    by (cases c)
  obtain ms1 where 1: "Collect_ms ms sid ans = Inr ms1"
    using Collect_ms_total by blast
  have "collects ms1 cs = Inr ms'"
    using Cons.prems(2) by (simp add: c 1)
  with Cons.IH Collect_ms_wf [OF Cons.prems(1) 1] show ?case
    by blast
qed

lemmas store_eval =
  run_def NewMemoryStore_def zeroTrace_def Collect_ms_def init_span_map_def create_or_update_def
  create_tree_def fix_root_def lookup2_def reattachChildren_def insert_ms_def appendSub_def
  setSub_def IsRoot_def Trace_ms_def Let_def

section \<open>Runs from the empty store\<close>

lemma collects_run: "collects NewMemoryStore cs = Inr (run cs)"
  using collects_total [of NewMemoryStore cs] by (auto simp: run_def)

lemma collects_append:
  "collects ms (cs @ ds) = (case collects ms cs of Inl e \<Rightarrow> Inl e | Inr ms' \<Rightarrow> collects ms' ds)"
  by (induction cs arbitrary: ms) (auto split: sum.splits)

lemma run_snoc: "Collect_ms (run cs) sid ans = Inr (run (cs @ [(sid, ans)]))"
proof -
  obtain ms' where 1: "Collect_ms (run cs) sid ans = Inr ms'"
    using Collect_ms_total by blast
  have "collects NewMemoryStore (cs @ [(sid, ans)]) = Inr ms'"
    by (simp add: collects_append collects_run 1)
  then have "run (cs @ [(sid, ans)]) = ms'"
    by (simp add: run_def [of "cs @ [(sid, ans)]"])
  then show ?thesis
    by (simp add: 1)
qed

lemma wf_run: "wf_store (run cs)"
  using collects_wf [OF wf_NewMemoryStore collects_run] .

lemma Collect_ms_node:
  "\<exists>ms' s. Collect_ms ms sid ans = Inr ms' \<and> lookup2 (span ms') (Trace sid) (Span sid) = Some s
      \<and> Annotations (heap ms' s) = prev_annotations ms sid @ ans
      \<and> (lookup2 (span ms) (Trace sid) (Span sid) = None \<longrightarrow> ID (heap ms' s) = sid)"
  by (auto simp: Collect_ms_eq located_def prev_annotations_def split: option.splits)

section \<open>Annotation accumulation\<close>

text \<open>
  Claim C8. Collecting a span identifier with annotations \<open>A\<close> and then again with \<open>B\<close>
  leaves one node registered for it whose annotations are those it had before, followed by
  \<open>A\<close>, followed by \<open>B\<close>. For a span identifier not collected before, the annotations are
  exactly \<open>A\<close> followed by \<open>B\<close>. This holds from every store state.
\<close>

theorem annotations_accumulate:
  "\<exists>ms1 ms2 s. Collect_ms ms sid A = Inr ms1 \<and> Collect_ms ms1 sid B = Inr ms2
      \<and> lookup2 (span ms2) (Trace sid) (Span sid) = Some s
      \<and> Annotations (heap ms2 s) = prev_annotations ms sid @ A @ B
      \<and> (lookup2 (span ms) (Trace sid) (Span sid) = None \<longrightarrow> Annotations (heap ms2 s) = A @ B)"
proof -
  obtain ms1 s1 where 1: "Collect_ms ms sid A = Inr ms1"
    "lookup2 (span ms1) (Trace sid) (Span sid) = Some s1"
    "Annotations (heap ms1 s1) = prev_annotations ms sid @ A"
    using Collect_ms_node by blast
  obtain ms2 s2 where 2: "Collect_ms ms1 sid B = Inr ms2"
    "lookup2 (span ms2) (Trace sid) (Span sid) = Some s2"
    "Annotations (heap ms2 s2) = prev_annotations ms1 sid @ B"
    using Collect_ms_node by blast
  have "prev_annotations ms1 sid = prev_annotations ms sid @ A"
    using 1 by (simp add: prev_annotations_def)
  then show ?thesis
    using 1 2 by (auto simp: prev_annotations_def)
qed

theorem annotations_accumulate_witness:
  "lookup2 (span NewMemoryStore) 1 2 = None \<and>
   (\<exists>ms1 ms2 s.
      Collect_ms NewMemoryStore \<lparr>Trace = 1, Span = 2, Parent = 1\<rparr> [\<lparr>Key = ''name'', Value = [1]\<rparr>] = Inr ms1
    \<and> Collect_ms ms1 \<lparr>Trace = 1, Span = 2, Parent = 1\<rparr> [\<lparr>Key = ''k'', Value = [2]\<rparr>] = Inr ms2
    \<and> lookup2 (span ms2) 1 2 = Some s
    \<and> Annotations (heap ms2 s) = [\<lparr>Key = ''name'', Value = [1]\<rparr>, \<lparr>Key = ''k'', Value = [2]\<rparr>])"
proof -
  have h: "lookup2 (span NewMemoryStore) 1 2 = None"
    by (simp add: NewMemoryStore_def lookup2_def)
  show ?thesis
    using h annotations_accumulate [of NewMemoryStore "\<lparr>Trace = 1, Span = 2, Parent = 1\<rparr>"
        "[\<lparr>Key = ''name'', Value = [1]\<rparr>]" "[\<lparr>Key = ''k'', Value = [2]\<rparr>]"]
    by (simp add: prev_annotations_def)
qed

section \<open>Looking up a trace\<close>

text \<open>
  Claim C9. After any sequence of \<open>Collect\<close> calls on a new store, \<open>Trace x\<close> returns the
  trace-not-found error exactly when no call carried the trace identifier \<open>x\<close>; otherwise
  it returns, without error, the node the store designates as the root of trace \<open>x\<close>, which
  is a node registered for trace \<open>x\<close>.
\<close>

theorem Trace_not_found_iff:
  "\<exists>ms. collects NewMemoryStore cs = Inr ms
     \<and> (Trace_ms ms x = Inl ErrTraceNotFound \<longleftrightarrow> x \<notin> (Trace \<circ> fst) ` set cs)
     \<and> (x \<in> (Trace \<circ> fst) ` set cs \<longrightarrow>
          (\<exists>r. Trace_ms ms x = Inr r \<and> trace ms x = Some r \<and> r \<in> nodes ms x
             \<and> Trace (ID (heap ms r)) = x))"
proof -
  have d: "dom (trace (run cs)) = (Trace \<circ> fst) ` set cs"
    using collects_trace_dom [OF collects_run [of cs]] by (simp add: NewMemoryStore_def)
  show ?thesis
  proof (cases "x \<in> (Trace \<circ> fst) ` set cs")
    case True
    then have "x \<in> dom (trace (run cs))"
      by (simp only: d)
    then obtain r where r: "trace (run cs) x = Some r"
      by blast
    have n: "r \<in> nodes (run cs) x"
      using wf_store_root [OF wf_run r] .
    have "Trace (ID (heap (run cs) r)) = x"
      using wf_store_node [OF wf_run n] by simp
    then show ?thesis
      using True r n by (simp add: collects_run Trace_ms_def)
  next
    case False
    then have "x \<notin> dom (trace (run cs))"
      by (simp only: d not_False_eq_True)
    then have "trace (run cs) x = None"
      by blast
    then show ?thesis
      using False by (simp add: collects_run Trace_ms_def)
  qed
qed

theorem Trace_not_found_iff_witness:
  "\<exists>ms. collects NewMemoryStore [(\<lparr>Trace = 1, Span = 1, Parent = 0\<rparr>, [])] = Inr ms
     \<and> Trace_ms ms 2 = Inl ErrTraceNotFound \<and> Trace_ms ms 1 = Inr 0 \<and> Trace (ID (heap ms 0)) = 1"
proof -
  let ?cs = "[(\<lparr>Trace = 1, Span = 1, Parent = 0\<rparr>, [])]"
  have "Trace_ms (run ?cs) 2 = Inl ErrTraceNotFound"
    using Trace_not_found_iff [of ?cs 2] unfolding collects_run by simp
  moreover have "Trace_ms (run ?cs) 1 = Inr 0 \<and> Trace (ID (heap (run ?cs) 0)) = 1"
    by (simp add: store_eval)
  ultimately show ?thesis
    unfolding collects_run by simp
qed

section \<open>Collecting the same span identifier again\<close>

text \<open>
  Claim C3. The claim is that collecting a span identifier again adds no second node and no
  duplicate child link. On the code the second part fails: after the root \<open>1\<close> and its child
  \<open>2\<close> have been collected, collecting the child once more creates no new node (two nodes
  are allocated in all), but runs the insertion again, and the child list of the root, which
  was \<open>[1]\<close>, holds the address of the child twice.
\<close>

theorem recollect_duplicates_child_link:
  "Trace_ms (run [(\<lparr>Trace = 1, Span = 1, Parent = 0\<rparr>, []),
                  (\<lparr>Trace = 1, Span = 2, Parent = 1\<rparr>, []),
                  (\<lparr>Trace = 1, Span = 2, Parent = 1\<rparr>, [])]) 1 = Inr 0
   \<and> nxt (run [(\<lparr>Trace = 1, Span = 1, Parent = 0\<rparr>, []),
               (\<lparr>Trace = 1, Span = 2, Parent = 1\<rparr>, []),
               (\<lparr>Trace = 1, Span = 2, Parent = 1\<rparr>, [])]) = 2
   \<and> Sub (heap (run [(\<lparr>Trace = 1, Span = 1, Parent = 0\<rparr>, []),
                     (\<lparr>Trace = 1, Span = 2, Parent = 1\<rparr>, [])]) 0) = [1]
   \<and> Sub (heap (run [(\<lparr>Trace = 1, Span = 1, Parent = 0\<rparr>, []),
                     (\<lparr>Trace = 1, Span = 2, Parent = 1\<rparr>, []),
                     (\<lparr>Trace = 1, Span = 2, Parent = 1\<rparr>, [])]) 0) = [1, 1]"
  by (simp add: store_eval)

section \<open>Replacing the root\<close>

lemma located_not_root:
  assumes wf: "wf_store ms" and l: "located ms sid ans = (ms2, s)"
    and r: "trace ms (Trace sid) = Some r" and ne: "Span sid \<noteq> Span (ID (heap ms r))"
  shows "s \<noteq> r" and "heap ms2 r = heap ms r"
proof -
  note lf = located_facts [OF wf l]
  have rn: "r \<in> nodes ms (Trace sid)"
    using wf_store_root [OF wf r] .
  show "s \<noteq> r"
  proof
    assume "s = r"
    then have "s \<in> nodes ms (Trace sid)"
      using rn by simp
    then have "Span (ID (heap ms2 s)) = Span (ID (heap ms s))"
      using lf(9) by simp
    then show False
      using lf(7) ne \<open>s = r\<close> by simp
  qed
  then show "heap ms2 r = heap ms r"
    using lf(8) [of r] by simp
qed

lemma Collect_ms_promote:
  assumes wf: "wf_store ms" and l: "located ms sid ans = (ms2, s)"
    and r: "trace ms (Trace sid) = Some r" and ne: "Span sid \<noteq> Span (ID (heap ms r))"
    and pr: "IsRoot sid \<or> Span sid = Parent (ID (heap ms r))"
  shows "Collect_ms ms sid ans =
     Inr (ms2\<lparr>trace := (trace ms)(Trace sid \<mapsto> s), heap := promote_h (span ms2) s r (heap ms2)\<rparr>)"
  using located_not_root [OF wf l r ne] pr r by (auto simp: Collect_ms_eq l)




section \<open>The text form of span identifiers\<close>

lemma split_from_slash_Cons:
  "split_from ''/'' cur (c # cs) =
     (if c = CHR ''/'' then rev cur # split_from ''/'' [] cs else split_from ''/'' (c # cur) cs)"
  by simp

lemma split_from_last: "CHR ''/'' \<notin> set a \<Longrightarrow> split_from ''/'' cur a = [rev cur @ a]"
  by (induction a arbitrary: cur) (auto simp del: split_from.simps(2) simp add: split_from_slash_Cons)

lemma split_from_piece:
  "CHR ''/'' \<notin> set a \<Longrightarrow>
     split_from ''/'' cur (a @ CHR ''/'' # rest) = (rev cur @ a) # split_from ''/'' [] rest"
  by (induction a arbitrary: cur) (auto simp del: split_from.simps(2) simp add: split_from_slash_Cons)

lemma Split_two:
  "CHR ''/'' \<notin> set a \<Longrightarrow> CHR ''/'' \<notin> set b \<Longrightarrow>
     strings_Split (a @ SpanIDDelimiter @ b) SpanIDDelimiter = [a, b]"
  using split_from_piece [of a "[]" b] split_from_last [of b "[]"]
  by (simp add: strings_Split_def SpanIDDelimiter_def)

lemma Split_three:
  "CHR ''/'' \<notin> set a \<Longrightarrow> CHR ''/'' \<notin> set b \<Longrightarrow> CHR ''/'' \<notin> set c \<Longrightarrow>
     strings_Split (a @ SpanIDDelimiter @ b @ SpanIDDelimiter @ c) SpanIDDelimiter = [a, b, c]"
  using split_from_piece [of a "[]" "b @ CHR ''/'' # c"] split_from_piece [of b "[]" c]
    split_from_last [of c "[]"]
  by (simp add: strings_Split_def SpanIDDelimiter_def)

lemma ParseSpanID_String_gen:
  assumes "codec_ok idString parseID (Trace sid)" and "codec_ok idString parseID (Span sid)"
    and "Parent sid \<noteq> 0 \<longrightarrow> codec_ok idString parseID (Parent sid)"
  shows "ParseSpanID parseID (SpanID_String idString sid) = Inr sid"
proof (cases "Parent sid = 0")
  case True
  have "strings_Split (SpanID_String idString sid) SpanIDDelimiter
          = [idString (Trace sid), idString (Span sid)]"
    using assms(1,2) True by (simp add: SpanID_String_def codec_ok_def Split_two)
  then show ?thesis
    using assms(1,2) True by (simp add: ParseSpanID_def codec_ok_def)
next
  case False
  have "strings_Split (SpanID_String idString sid) SpanIDDelimiter
          = [idString (Trace sid), idString (Span sid), idString (Parent sid)]"
    using assms False by (simp add: SpanID_String_def codec_ok_def Split_three)
  then show ?thesis
    using assms False by (simp add: ParseSpanID_def codec_ok_def)
qed

lemma hex_digits_numeral:
  "hex_digits (numeral k) n = hex_digits (pred_numeral k) (n div 16) @ [hexchar (n mod 16)]"
proof -
  have "numeral k = Suc (pred_numeral k)"
    by (rule numeral_eq_Suc)
  then show ?thesis
    by (simp only: hex_digits.simps)
qed

lemma hexString_examples: "hexString 10 = ''000000000000000a''" "hexString 171 = ''00000000000000ab''"
    "hexString 4660 = ''0000000000001234''"
  by (simp_all add: hexString_def hex_digits_numeral hexchar_def)

lemma parseHex_examples: "parseHex ''000000000000000a'' = Inr 10" "parseHex ''00000000000000ab'' = Inr 171"
    "parseHex ''0000000000001234'' = Inr 4660"
    by (simp_all add: parseHex_def hexval_def Let_def)

lemma below_16: "(d::nat) < 16 \<Longrightarrow> d \<in> {0, 1, 2, 3, 4, 5, 6, 7, 8, 9, 10, 11, 12, 13, 14, 15}"
  by (simp only: insert_iff empty_iff) arith

lemma hexval_hexchar: "d < 16 \<Longrightarrow> hexval (hexchar d) = Some d"
  by (drule below_16) (auto simp: hexchar_def hexval_def Let_def)

lemma hexchar_not_slash: "d < 16 \<Longrightarrow> hexchar d \<noteq> CHR ''/''"
  by (drule below_16) (auto simp: hexchar_def)

lemma hex_value_snoc:
  "hex_value acc (xs @ [c]) =
     (case hex_value acc xs of None \<Rightarrow> None
      | Some v \<Rightarrow> (case hexval c of None \<Rightarrow> None | Some d \<Rightarrow> Some (v * 16 + d)))"
  by (induction xs arbitrary: acc) (auto split: option.splits)

lemma hex_value_digits: "hex_value 0 (hex_digits k n) = Some (n mod 16 ^ k)"
proof (induction k arbitrary: n)
  case 0
  show ?case by simp
next
  case (Suc k)
  have "n mod 16 ^ Suc k = 16 * (n div 16 mod 16 ^ k) + n mod 16"
    by (simp add: mod_mult2_eq)
  then show ?case
    by (simp add: hex_value_snoc Suc.IH hexval_hexchar)
qed

lemma hex_digits_no_slash: "CHR ''/'' \<notin> set (hex_digits k n)"
proof (induction k arbitrary: n)
  case 0
  show ?case by simp
next
  case (Suc k)
  have "n mod 16 < 16"
    by simp
  then have "hexchar (n mod 16) \<noteq> CHR ''/''"
    by (rule hexchar_not_slash)
  then show ?case
    using Suc.IH by auto
qed

lemma hex_digits_length: "length (hex_digits k n) = k"
  by (induction k arbitrary: n) auto

lemma hex_codec_ok: "codec_ok hexString parseHex x"
proof -
  have "unat x < 2 ^ 64"
    using unsigned_less [of x, where 'a = nat] by simp
  then have "unat x mod 16 ^ 16 = unat x"
    by simp
  moreover have "hex_digits 16 (unat x) \<noteq> []"
    using hex_digits_length [of 16 "unat x"] by auto
  ultimately show ?thesis
    using \<open>unat x < 2 ^ 64\<close>
    by (simp add: codec_ok_def hexString_def parseHex_def hex_value_digits hex_digits_no_slash)
qed

lemma ParseSpanID_hex: "ParseSpanID parseHex (SpanID_String hexString sid) = Inr sid"
  by (rule ParseSpanID_String_gen) (simp_all add: hex_codec_ok)

text \<open>
  Claim C7. For every span identifier, in particular every one built by \<open>NewRootSpanID\<close> or
  \<open>NewSpanID\<close>, parsing its text form gives the identifier back, provided the text form of
  each identifier it prints parses back to that identifier and contains no delimiter.
\<close>

theorem ParseSpanID_String:
  assumes "codec_ok idString parseID (Trace sid)" and "codec_ok idString parseID (Span sid)"
    and "Parent sid \<noteq> 0 \<longrightarrow> codec_ok idString parseID (Parent sid)"
  shows "ParseSpanID parseID (SpanID_String idString sid) = Inr sid"
proof (cases "Parent sid = 0")
  case True
  have "strings_Split (SpanID_String idString sid) SpanIDDelimiter
          = [idString (Trace sid), idString (Span sid)]"
    using assms(1,2) True by (simp add: SpanID_String_def codec_ok_def Split_two)
  then show ?thesis
    using assms(1,2) True by (simp add: ParseSpanID_def codec_ok_def)
next
  case False
  have "strings_Split (SpanID_String idString sid) SpanIDDelimiter
          = [idString (Trace sid), idString (Span sid), idString (Parent sid)]"
    using assms False by (simp add: SpanID_String_def codec_ok_def Split_three)
  then show ?thesis
    using assms False by (simp add: ParseSpanID_def codec_ok_def)
qed

theorem ParseSpanID_String_witness:
  "SpanID_String hexString (NewSpanID (NewRootSpanID 10 171) 4660)
     = ''000000000000000a/0000000000001234/00000000000000ab''
   \<and> ParseSpanID parseHex (SpanID_String hexString (NewSpanID (NewRootSpanID 10 171) 4660))
     = Inr \<lparr>Trace = 10, Span = 4660, Parent = 171\<rparr>
   \<and> SpanID_String hexString (NewRootSpanID 10 171) = ''000000000000000a/00000000000000ab''
   \<and> ParseSpanID parseHex (SpanID_String hexString (NewRootSpanID 10 171))
     = Inr \<lparr>Trace = 10, Span = 171, Parent = 0\<rparr>"
proof -
  have c: "codec_ok hexString parseHex 10" "codec_ok hexString parseHex 171"
    "codec_ok hexString parseHex 4660"
    by (simp_all add: codec_ok_def hexString_examples parseHex_examples)
  have 1: "ParseSpanID parseHex (SpanID_String hexString (NewSpanID (NewRootSpanID 10 171) 4660))
       = Inr (NewSpanID (NewRootSpanID 10 171) 4660)"
    by (rule ParseSpanID_String) (simp_all add: NewSpanID_def NewRootSpanID_def c)
  have 2: "ParseSpanID parseHex (SpanID_String hexString (NewRootSpanID 10 171))
       = Inr (NewRootSpanID 10 171)"
    by (rule ParseSpanID_String) (simp_all add: NewRootSpanID_def c)
  show ?thesis
    using 1 2 by (simp add: NewSpanID_def NewRootSpanID_def SpanID_String_def hexString_examples SpanIDDelimiter_def)
qed






lemma located_new:
  assumes wf: "wf_store ms" and l: "located ms sid ans = (ms2, s)"
    and new: "lookup2 (span ms) (Trace sid) (Span sid) = None"
  shows "s \<notin> nodes ms (Trace sid)" and "ID (heap ms2 s) = sid" and "Sub (heap ms2 s) = []"
    and "x \<in> nodes ms t \<Longrightarrow> heap ms2 x = heap ms x"
proof -
  have s: "s = nxt ms"
    using l new by (simp add: located_def)
  show 1: "s \<notin> nodes ms (Trace sid)"
    using wf_store_node [OF wf, of s "Trace sid"] s by auto
  show "ID (heap ms2 s) = sid" "Sub (heap ms2 s) = []"
    using located_facts(10) [OF wf l 1] by blast+
  show "x \<in> nodes ms t \<Longrightarrow> heap ms2 x = heap ms x"
    using wf_store_node [OF wf, of x t] s located_facts(8) [OF wf l, of x] by auto
qed







section \<open>Runs in which every span of a trace arrives once\<close>

lemma spans_for_Nil [simp]: "spans_for t [] = []"
  by (simp add: spans_for_def)

lemma spans_for_append [simp]: "spans_for t (cs @ ds) = spans_for t cs @ spans_for t ds"
  by (simp add: spans_for_def)

lemma spans_for_single [simp]:
  "spans_for t [(sid, ans)] = (if Trace sid = t then [sid] else [])"
  by (simp add: spans_for_def)

lemma run_Nil [simp]: "run [] = NewMemoryStore"
  by (simp add: run_def)








section \<open>Complete traces\<close>








text \<open>
  Claim C10, as amended. When the root of a trace is a root span (parent identifier zero),
  no span of the trace is registered under the identifier zero, and a span with another
  span identifier and parent identifier zero is collected for the same trace, then that
  span's node becomes the root returned by \<open>Trace\<close> and the previous root is one of its
  children. When the span was not collected before, the new root carries exactly the
  collected identifier.
\<close>

theorem last_root_wins:
  assumes "trace (run cs) t = Some r" and "Parent (ID (heap (run cs) r)) = 0"
    and "Trace sid = t" and "Parent sid = 0"
    and "Span sid \<noteq> Span (ID (heap (run cs) r))"
    and "lookup2 (span (run cs)) t 0 = None"
  shows "\<exists>s. Trace_ms (run (cs @ [(sid, ans)])) t = Inr s \<and> s \<noteq> r
           \<and> Span (ID (heap (run (cs @ [(sid, ans)])) s)) = Span sid
           \<and> (lookup2 (span (run cs)) t (Span sid) = None \<longrightarrow>
                ID (heap (run (cs @ [(sid, ans)])) s) = sid)
           \<and> r \<in> set (Sub (heap (run (cs @ [(sid, ans)])) s))"
proof -
  obtain ms2 s where l: "located (run cs) sid ans = (ms2, s)"
    by (cases "located (run cs) sid ans")
  have r: "trace (run cs) (Trace sid) = Some r"
    using assms(1,3) by simp
  note lf = located_facts [OF wf_run l]
  have rn: "r \<in> nodes (run cs) t"
    using wf_store_root [OF wf_run assms(1)] .
  have sr: "s \<noteq> r" and hr: "heap ms2 r = heap (run cs) r"
    using located_not_root [OF wf_run l r assms(5)] by simp_all
  have sid: "ID (heap ms2 s) = sid" if "lookup2 (span (run cs)) t (Span sid) = None"
    using located_new(2) [OF wf_run l] that assms(3) by simp
  have "lookup2 (span ms2) t 0 = None \<or> lookup2 (span ms2) t 0 = Some s"
    using lf(2) [of t 0] assms(6) by (simp split: if_splits)
  then have tg: "target (span ms2) s (ID (heap ms2 r)) = s"
    using hr assms(2) wf_store_node [OF wf_run rn] by (auto simp: target_def)
  have "Collect_ms (run cs) sid ans =
     Inr (ms2\<lparr>trace := (trace (run cs))(Trace sid \<mapsto> s), heap := promote_h (span ms2) s r (heap ms2)\<rparr>)"
    using Collect_ms_promote [OF wf_run l r assms(5)] assms(4) by (simp add: IsRoot_def)
  then have "run (cs @ [(sid, ans)]) =
     ms2\<lparr>trace := (trace (run cs))(Trace sid \<mapsto> s), heap := promote_h (span ms2) s r (heap ms2)\<rparr>"
    by (simp add: run_snoc)
  then show ?thesis
    using sr sid tg assms(3) lf(7)
    by (auto simp: Trace_ms_def promote_h_def)
qed

theorem last_root_wins_witness:
  "Trace_ms (run [(\<lparr>Trace = 1, Span = 1, Parent = 0\<rparr>, [])]) 1 = Inr 0
   \<and> lookup2 (span (run [(\<lparr>Trace = 1, Span = 1, Parent = 0\<rparr>, [])])) 1 0 = None
   \<and> Trace_ms (run [(\<lparr>Trace = 1, Span = 1, Parent = 0\<rparr>, []), (\<lparr>Trace = 1, Span = 2, Parent = 0\<rparr>, [])]) 1 = Inr 1
   \<and> ID (heap (run [(\<lparr>Trace = 1, Span = 1, Parent = 0\<rparr>, []), (\<lparr>Trace = 1, Span = 2, Parent = 0\<rparr>, [])]) 1)
        = \<lparr>Trace = 1, Span = 2, Parent = 0\<rparr>
   \<and> 0 \<in> set (Sub (heap (run [(\<lparr>Trace = 1, Span = 1, Parent = 0\<rparr>, []), (\<lparr>Trace = 1, Span = 2, Parent = 0\<rparr>, [])]) 1))"
proof -
  let ?cs = "[(\<lparr>Trace = 1, Span = 1, Parent = 0\<rparr>, [])]"
  let ?sid = "\<lparr>Trace = 1, Span = 2, Parent = 0\<rparr>"
  have h: "trace (run ?cs) 1 = Some 0" "lookup2 (span (run ?cs)) 1 0 = None"
    "lookup2 (span (run ?cs)) 1 2 = None"
    by (simp_all add: store_eval)
  have e: "trace (run (?cs @ [(?sid, [])])) 1 = Some 1"
    by (simp add: store_eval)
  have "\<exists>s. Trace_ms (run (?cs @ [(?sid, [])])) 1 = Inr s \<and> s \<noteq> 0
           \<and> Span (ID (heap (run (?cs @ [(?sid, [])])) s)) = Span ?sid
           \<and> (lookup2 (span (run ?cs)) 1 (Span ?sid) = None \<longrightarrow>
                ID (heap (run (?cs @ [(?sid, [])])) s) = ?sid)
           \<and> 0 \<in> set (Sub (heap (run (?cs @ [(?sid, [])])) s))"
    by (rule last_root_wins [where r = 0 and t = 1]) (simp_all add: store_eval)
  then show ?thesis
    using h e by (auto simp: Trace_ms_def)
qed

text \<open>
  Claim C10 as stated takes for granted that the zero identifier is never found in the
  span map. The store accepts a span whose identifier is zero: after the root span
  \<open>{1, 0, 0}\<close> the second root span \<open>{1, 2, 0}\<close> becomes the root, but the insertion finds the
  old root under its own parent identifier zero, so the old root becomes a child of itself
  and the new root has no child.
\<close>

theorem zero_span_root_not_demoted_under_new_root:
  "Trace_ms (run [(\<lparr>Trace = 1, Span = 0, Parent = 0\<rparr>, [])]) 1 = Inr 0
   \<and> ID (heap (run [(\<lparr>Trace = 1, Span = 0, Parent = 0\<rparr>, [])]) 0) = \<lparr>Trace = 1, Span = 0, Parent = 0\<rparr>
   \<and> Trace_ms (run [(\<lparr>Trace = 1, Span = 0, Parent = 0\<rparr>, []), (\<lparr>Trace = 1, Span = 2, Parent = 0\<rparr>, [])]) 1 = Inr 1
   \<and> ID (heap (run [(\<lparr>Trace = 1, Span = 0, Parent = 0\<rparr>, []), (\<lparr>Trace = 1, Span = 2, Parent = 0\<rparr>, [])]) 1)
        = \<lparr>Trace = 1, Span = 2, Parent = 0\<rparr>
   \<and> Sub (heap (run [(\<lparr>Trace = 1, Span = 0, Parent = 0\<rparr>, []), (\<lparr>Trace = 1, Span = 2, Parent = 0\<rparr>, [])]) 1) = []
   \<and> Sub (heap (run [(\<lparr>Trace = 1, Span = 0, Parent = 0\<rparr>, []), (\<lparr>Trace = 1, Span = 2, Parent = 0\<rparr>, [])]) 0) = [0]"
  by (simp add: store_eval)

end
